theory Spec2Isabelle
  imports Main "HOL-Library.Multiset" "HOL-Library.Word"
begin

section \<open>The XML parser (xml/parse/parser.go)\<close>

subsection \<open>Tokens and errors of the token reader\<close>

text \<open>
  \<^verbatim>\<open>parse\<close> drives an \<^verbatim>\<open>encoding/xml\<close> decoder through \<^verbatim>\<open>p.Token()\<close>. The decoder is
  library code; what \<^verbatim>\<open>parse\<close> sees of it is the sequence of results of \<^verbatim>\<open>Token()\<close>:
  tokens with a nil error, then a nil token with an error (\<^verbatim>\<open>io.EOF\<close> at a clean end of
  input). A reader is therefore modelled as that sequence: the tokens delivered and the
  error that ends them. Byte slices and strings are \<^typ>\<open>string\<close> (lists of 8-bit chars).
\<close>

record xml_Name =
  Space :: string
  Local :: string

text \<open>\<^verbatim>\<open>xml.Attr\<close> is a pair of a \<^verbatim>\<open>Name\<close> and a \<^verbatim>\<open>Value\<close>.\<close>

type_synonym xml_Attr = "xml_Name \<times> string"

datatype token =
    xml_StartElement xml_Name "xml_Attr list"
  | xml_EndElement xml_Name
  | xml_CharData string
  | xml_Comment string
  | xml_ProcInst string string
  | xml_Directive string

text \<open>
  Go's \<^verbatim>\<open>error\<close> values. \<open>EOF\<close> is \<^verbatim>\<open>io.EOF\<close>; \<open>SyntaxError\<close> and \<open>PathError\<close> stand for what
  the decoder, the underlying reader and \<^verbatim>\<open>os.Open\<close> report. \<open>ParseError\<close> (a wrapper
  around a cause) and \<open>StructuralError\<close> are the error kinds the specification names;
  no function of the source constructs either.
\<close>

datatype error =
    EOF
  | SyntaxError string
  | PathError string
  | ParseError error
  | StructuralError string

type_synonym reader = "token list \<times> error"

subsection \<open>Documents and nodes (xmldom), in an explicit store\<close>

text \<open>
  \<^verbatim>\<open>xmldom.Node\<close> values are allocated with \<^verbatim>\<open>new\<close> and linked by pointers (\<^verbatim>\<open>Parent\<close>,
  \<^verbatim>\<open>Children\<close>, \<^verbatim>\<open>doc.Root\<close>), and a node is mutated after it has been linked. The store is
  the list of the nodes allocated so far; an address is an index into it, a fresh node gets
  the next index, and a nil pointer is \<open>None\<close>. The \<^verbatim>\<open>Document\<close> back pointer of a node is
  left out: there is one document per call. An \<^verbatim>\<open>xmldom.Attribute\<close> is the pair of its
  \<^verbatim>\<open>Name\<close> and \<^verbatim>\<open>Value\<close>.
\<close>

type_synonym addr = nat

type_synonym Attribute = "string \<times> string"

record Node =
  Parent :: "addr option"
  Name :: string
  Attributes :: "Attribute list"
  Children :: "addr list"
  Text :: string

record Document =
  ProcInst :: string
  Directives :: "string list"
  Root :: "addr option"

text \<open>The variables of the loop: the document, the store, and the current node \<^verbatim>\<open>e\<close>.\<close>

record state =
  doc :: Document
  nodes :: "Node list"
  e :: "addr option"

subsection \<open>\<^verbatim>\<open>bytes.TrimSpace\<close>\<close>

text \<open>
  \<^verbatim>\<open>bytes.TrimSpace\<close> (Go standard library) slices off all leading and trailing white space,
  as defined by Unicode, of a UTF-8 byte slice. The white space code points are
  U+0009 to U+000D, U+0020, U+0085, U+00A0, U+1680, U+2000 to U+200A, U+2028, U+2029,
  U+202F, U+205F and U+3000; \<open>white_space\<close> lists their UTF-8 encodings. A malformed
  sequence decodes to U+FFFD, which is not white space, so trimming removes exactly the
  leading and trailing byte sequences of this list.
\<close>

definition white_space :: "string list" where
  "white_space =
     [[CHR 0x09], [CHR 0x0A], [CHR 0x0B], [CHR 0x0C], [CHR 0x0D], [CHR 0x20],
      [CHR 0xC2, CHR 0x85], [CHR 0xC2, CHR 0xA0],
      [CHR 0xE1, CHR 0x9A, CHR 0x80],
      [CHR 0xE2, CHR 0x80, CHR 0x80], [CHR 0xE2, CHR 0x80, CHR 0x81],
      [CHR 0xE2, CHR 0x80, CHR 0x82], [CHR 0xE2, CHR 0x80, CHR 0x83],
      [CHR 0xE2, CHR 0x80, CHR 0x84], [CHR 0xE2, CHR 0x80, CHR 0x85],
      [CHR 0xE2, CHR 0x80, CHR 0x86], [CHR 0xE2, CHR 0x80, CHR 0x87],
      [CHR 0xE2, CHR 0x80, CHR 0x88], [CHR 0xE2, CHR 0x80, CHR 0x89],
      [CHR 0xE2, CHR 0x80, CHR 0x8A],
      [CHR 0xE2, CHR 0x80, CHR 0xA8], [CHR 0xE2, CHR 0x80, CHR 0xA9],
      [CHR 0xE2, CHR 0x80, CHR 0xAF], [CHR 0xE2, CHR 0x81, CHR 0x9F],
      [CHR 0xE3, CHR 0x80, CHR 0x80]]"

text \<open>The length of the white space sequence at the front (at the back) of \<open>s\<close>, or 0.\<close>

definition space_prefix :: "string \<Rightarrow> nat" where
  "space_prefix s =
     (case filter (\<lambda>w. take (length w) s = w) white_space of
        [] \<Rightarrow> 0 | w # _ \<Rightarrow> length w)"

definition space_suffix :: "string \<Rightarrow> nat" where
  "space_suffix s =
     (case filter (\<lambda>w. length w \<le> length s \<and> drop (length s - length w) s = w) white_space of
        [] \<Rightarrow> 0 | w # _ \<Rightarrow> length w)"

text \<open>
  The two trimming loops, with the length of the input as fuel: every round that goes on
  removes at least one byte.
\<close>

fun TrimLeft :: "nat \<Rightarrow> string \<Rightarrow> string" where
  "TrimLeft 0 s = s"
| "TrimLeft (Suc n) s =
     (if space_prefix s = 0 then s else TrimLeft n (drop (space_prefix s) s))"

fun TrimRight :: "nat \<Rightarrow> string \<Rightarrow> string" where
  "TrimRight 0 s = s"
| "TrimRight (Suc n) s =
     (if space_suffix s = 0 then s else TrimRight n (take (length s - space_suffix s) s))"

definition TrimSpace :: "string \<Rightarrow> string" where
  "TrimSpace s = (let t = TrimLeft (length s) s in TrimRight (length t) t)"

subsection \<open>The parser\<close>

definition stringifyProcInst :: "string \<Rightarrow> string \<Rightarrow> string" where
  "stringifyProcInst target inst = ''<?'' @ target @ '' '' @ inst @ ''?>''"

definition stringifyDirective :: "string \<Rightarrow> string" where
  "stringifyDirective directive = ''<!'' @ directive @ ''>''"

text \<open>\<^verbatim>\<open>doc := new(xmldom.Document); var e *xmldom.Node\<close>: zero values, nothing allocated.\<close>

definition init :: state where
  "init = \<lparr>doc = \<lparr>ProcInst = [], Directives = [], Root = None\<rparr>, nodes = [], e = None\<rparr>"

text \<open>
  One round of the \<^verbatim>\<open>for t != nil\<close> loop: the \<^verbatim>\<open>switch\<close> on the token's type. The result
  \<open>None\<close> is a run-time panic: \<^verbatim>\<open>e = e.Parent\<close> dereferences \<^verbatim>\<open>e\<close> without a nil check.
  A comment token matches no case. A pointer that is not nil is the address of an allocated
  node, so the reads \<open>nodes s ! a\<close> are in range in every state the loop reaches (lemma
  \<open>reachable_cur_valid\<close> below).
\<close>

fun step :: "state \<Rightarrow> token \<Rightarrow> state option" where
  "step s (xml_StartElement name attr) =
     (let a = length (nodes s);
          el = \<lparr>Parent = e s, Name = Local name,
                Attributes = map (\<lambda>(n, v). (Local n, v)) attr,
                Children = [], Text = []\<rparr>;
          ns = (case e s of
                  None \<Rightarrow> nodes s
                | Some p \<Rightarrow> (nodes s)[p := (nodes s ! p)\<lparr>Children := Children (nodes s ! p) @ [a]\<rparr>]);
          d = (if Root (doc s) = None then (doc s)\<lparr>Root := Some a\<rparr> else doc s)
      in Some \<lparr>doc = d, nodes = ns @ [el], e = Some a\<rparr>)"
| "step s (xml_EndElement name) =
     (case e s of
        None \<Rightarrow> None
      | Some a \<Rightarrow> Some (s\<lparr>e := Parent (nodes s ! a)\<rparr>))"
| "step s (xml_CharData token) =
     (case e s of
        None \<Rightarrow> Some s
      | Some a \<Rightarrow> Some (s\<lparr>nodes := (nodes s)[a := (nodes s ! a)\<lparr>Text := TrimSpace token\<rparr>]\<rparr>))"
| "step s (xml_ProcInst target inst) =
     Some (s\<lparr>doc := (doc s)\<lparr>ProcInst := stringifyProcInst target inst\<rparr>\<rparr>)"
| "step s (xml_Directive directive) =
     Some (s\<lparr>doc := (doc s)\<lparr>Directives := Directives (doc s) @ [stringifyDirective directive]\<rparr>\<rparr>)"
| "step s (xml_Comment c) = Some s"

text \<open>The loop over the tokens the reader delivers.\<close>

fun loop :: "state \<Rightarrow> token list \<Rightarrow> state option" where
  "loop s [] = Some s"
| "loop s (t # ts) = (case step s t of None \<Rightarrow> None | Some s' \<Rightarrow> loop s' ts)"

text \<open>
  What a call does: it returns a pair of a document pointer and an error, either of which
  may be nil, or it panics. A returned document comes with the store its pointers refer to.
\<close>

datatype outcome =
    Return "(Document \<times> Node list) option" "error option"
  | Panic

text \<open>
  \<^verbatim>\<open>parse\<close>: if the first \<^verbatim>\<open>Token()\<close> already reports an error (no token delivered), that
  error is returned, whatever it is. Otherwise the loop runs until the reader reports its
  error, and the document is returned only if that error is \<^verbatim>\<open>io.EOF\<close>.
\<close>

definition parse :: "reader \<Rightarrow> outcome" where
  "parse r =
     (case r of (ts, err) \<Rightarrow>
        if ts = [] then Return None (Some err)
        else (case loop init ts of
                None \<Rightarrow> Panic
              | Some s \<Rightarrow>
                  if err \<noteq> EOF then Return None (Some err)
                  else Return (Some (doc s, nodes s)) None))"

text \<open>
  \<^verbatim>\<open>File\<close>: \<^verbatim>\<open>os.Open\<close> either fails with an error or gives a file, which \<^verbatim>\<open>parse\<close> reads.
  The file system is the function \<open>os_Open\<close> from file names to one or the other.
\<close>

definition File :: "(string \<Rightarrow> error + reader) \<Rightarrow> string \<Rightarrow> outcome" where
  "File os_Open filename =
     (case os_Open filename of
        Inl err \<Rightarrow> Return None (Some err)
      | Inr file \<Rightarrow> parse file)"

subsection \<open>What the decoder delivers\<close>

text \<open>
  \<^verbatim>\<open>parse\<close> reads its tokens from a decoder it creates itself (\<^verbatim>\<open>xml.NewDecoder\<close>, strict by
  default). \<^verbatim>\<open>Decoder.Token\<close> (Go standard library) keeps a stack of the names of the open
  elements: a start tag pushes its name, and an end tag must close the element on top of
  the stack, or else \<^verbatim>\<open>Token\<close> reports a syntax error in place of the token; at the end of
  the input with an element still open it reports the syntax error \<^verbatim>\<open>unexpected EOF\<close> in
  place of \<^verbatim>\<open>io.EOF\<close>. \<open>Decoder_Tokens stk ts err\<close> is what the calls of \<^verbatim>\<open>Token\<close> deliver
  when the input holds the tags and other items \<open>ts\<close> and then ends with \<open>err\<close> (\<^verbatim>\<open>io.EOF\<close>,
  or the error that reading the input runs into), with the names \<open>stk\<close> open at the start. A
  \<open>SyntaxError\<close> carries the message of \<^verbatim>\<open>xml.SyntaxError\<close>. The translation of name space
  prefixes, which changes only the \<^verbatim>\<open>Space\<close> of a delivered name, is left out: \<^verbatim>\<open>parse\<close> reads
  only \<^verbatim>\<open>Local\<close>.
\<close>

fun Decoder_Tokens :: "xml_Name list \<Rightarrow> token list \<Rightarrow> error \<Rightarrow> reader" where
  "Decoder_Tokens stk [] err =
     ([], if err = EOF \<and> stk \<noteq> [] then SyntaxError ''unexpected EOF'' else err)"
| "Decoder_Tokens stk (xml_StartElement name attr # ts) err =
     (case Decoder_Tokens (name # stk) ts err of
        (out, err') \<Rightarrow> (xml_StartElement name attr # out, err'))"
| "Decoder_Tokens stk (xml_EndElement name # ts) err =
     (case stk of
        [] \<Rightarrow> ([], SyntaxError (''unexpected end element </'' @ Local name @ ''>''))
      | s # stk' \<Rightarrow>
          if Local s \<noteq> Local name
          then ([], SyntaxError (''element <'' @ Local s @ ''> closed by </'' @ Local name @ ''>''))
          else if Space s \<noteq> Space name
          then ([], SyntaxError (''element <'' @ Local s @ ''> in space '' @ Space s
                                 @ '' closed by </'' @ Local name @ ''> in space ''
                                 @ (if Space name = [] then [CHR 0x22, CHR 0x22] else Space name)))
          else (case Decoder_Tokens stk' ts err of
                  (out, err') \<Rightarrow> (xml_EndElement name # out, err')))"
| "Decoder_Tokens stk (t # ts) err =
     (case Decoder_Tokens stk ts err of (out, err') \<Rightarrow> (t # out, err'))"

subsection \<open>Notions used to state the results about the parser\<close>

text \<open>
  The open elements, innermost first: \<open>open_path ns p as\<close> holds when following \<^verbatim>\<open>Parent\<close>
  from the pointer \<open>p\<close> visits exactly the addresses \<open>as\<close> and ends in nil.
\<close>

fun open_path :: "Node list \<Rightarrow> addr option \<Rightarrow> addr list \<Rightarrow> bool" where
  "open_path ns p [] = (p = None)"
| "open_path ns p (a # as) = (p = Some a \<and> a < length ns \<and> open_path ns (Parent (ns ! a)) as)"

text \<open>
  \<open>underflow d ts\<close>: with \<open>d\<close> elements open, the tokens \<open>ts\<close> hold an end tag that arrives
  when no element is open. The decoder of \<^verbatim>\<open>encoding/xml\<close> never delivers such a token: it
  reports an unmatched end tag as a syntax error.
\<close>

fun underflow :: "nat \<Rightarrow> token list \<Rightarrow> bool" where
  "underflow d [] = False"
| "underflow d (xml_StartElement name attr # ts) = underflow (Suc d) ts"
| "underflow d (xml_EndElement name # ts) = (case d of 0 \<Rightarrow> True | Suc d' \<Rightarrow> underflow d' ts)"
| "underflow d (t # ts) = underflow d ts"

text \<open>
  \<open>no_text_for s a ts\<close>: running the loop from \<open>s\<close> over \<open>ts\<close>, no character data token
  arrives while \<open>a\<close> is the current node.
\<close>

fun no_text_for :: "state \<Rightarrow> addr \<Rightarrow> token list \<Rightarrow> bool" where
  "no_text_for s a [] = True"
| "no_text_for s a (t # ts) =
     ((case t of xml_CharData d \<Rightarrow> e s \<noteq> Some a | _ \<Rightarrow> True) \<and>
      (case step s t of None \<Rightarrow> True | Some s' \<Rightarrow> no_text_for s' a ts))"

section \<open>Attribute statistics (pkg/dom/stats/attributes.go)\<close>

text \<open>
  \<^verbatim>\<open>attributesWithLock\<close> is a mutex and a Go map from attribute names to counts; every
  method body runs under the mutex, so a sequence of calls is the sequence of their bodies.
  The map is a partial function; the field \<^verbatim>\<open>in\<close> is written \<open>in'\<close>. A count is a Go \<^verbatim>\<open>int\<close>
  (\<^verbatim>\<open>type attribute = int\<close>): a machine word of \<open>LENGTH('w)\<close> bits (64, or 32 on a 32-bit
  target) read as a signed number (\<open>sint\<close>), on which \<^verbatim>\<open>x++\<close> wraps around from the largest
  value to the smallest. The record takes the type of the counts as its parameter.
  \<^verbatim>\<open>Add\<close> reads only the \<^verbatim>\<open>Name\<close> of the \<^verbatim>\<open>dom.Attribute\<close> it is given (a pointer that is not
  nil: the callers pass the attributes of a parsed node).
\<close>

type_synonym 'w attribute = "'w word"

type_synonym 'w attributeMap = "string \<rightharpoonup> 'w attribute"

record 'v attributesWithLock =
  in' :: "string \<rightharpoonup> 'v"

definition newAttributesWithLock :: "'w attribute attributesWithLock" where
  "newAttributesWithLock = \<lparr>in' = Map.empty\<rparr>"

definition Add ::
    "'w::len attribute attributesWithLock \<Rightarrow> Attribute \<Rightarrow> 'w attribute attributesWithLock" where
  "Add a n =
     (let x = (case in' a (fst n) of Some x \<Rightarrow> x + 1 | None \<Rightarrow> 1)
      in a\<lparr>in' := (in' a)(fst n \<mapsto> x)\<rparr>)"

definition Get :: "'w attribute attributesWithLock \<Rightarrow> 'w attributeMap" where
  "Get a = in' a"

definition Len :: "'w attribute attributesWithLock \<Rightarrow> int" where
  "Len a = int (card (dom (in' a)))"

section \<open>The schema printer (xml/print/elements.go)\<close>

text \<open>
  \<^verbatim>\<open>Elements\<close> ranges over \<^verbatim>\<open>elems.Get()\<close>, a Go map from tag names to elements with the
  fields \<^verbatim>\<open>Cn\<close> (count), \<^verbatim>\<open>At\<close> (attributes) and \<^verbatim>\<open>El\<close> (child elements). Go does not
  fix the order in which \<^verbatim>\<open>range\<close> yields the entries of a map, and the printer does not
  sort them. A value of \<^verbatim>\<open>spec.Elements\<close> is therefore modelled by the list of its
  entries in the order in which \<^verbatim>\<open>range\<close> yields them in the run at hand (the keys of a map
  are distinct); \<^verbatim>\<open>Len()\<close> is the length of that list. The type of the attribute
  statistics is left open (\<open>'at\<close>).
\<close>

datatype 'at Element = Element (Cn: int) (At: 'at) (El: "(string \<times> 'at Element) list")

text \<open>
  \<^verbatim>\<open>strings.Repeat\<close> panics on a negative count (\<open>None\<close>). \<open>fmt_d\<close> is the verb \<^verbatim>\<open>%d\<close>:
  decimal digits, with a minus sign for a negative number.
\<close>

definition strings_Repeat :: "string \<Rightarrow> int \<Rightarrow> string option" where
  "strings_Repeat s n = (if n < 0 then None else Some (concat (replicate (nat n) s)))"

fun digits :: "nat \<Rightarrow> string" where
  "digits n =
     (if n < 10 then [''0123456789'' ! n]
      else digits (n div 10) @ [''0123456789'' ! (n mod 10)])"

declare digits.simps [simp del]

definition fmt_d :: "int \<Rightarrow> string" where
  "fmt_d i = (if i < 0 then CHR ''-'' # digits (nat (- i)) else digits (nat i))"

definition quote :: string where
  "quote = [CHR 0x22]"

definition newline :: string where
  "newline = [CHR 0x0A]"

text \<open>The texts of the formatted print statements of the loop body.\<close>

definition open_tag :: "string \<Rightarrow> string \<Rightarrow> string" where
  "open_tag indent k = newline @ indent @ ''<'' @ k"

definition count_attr :: "int \<Rightarrow> string" where
  "count_attr cn = '' _count='' @ quote @ fmt_d cn @ quote"

definition optional_attr :: string where
  "optional_attr = '' _optional='' @ quote @ ''true'' @ quote"

definition close_tag :: "string \<Rightarrow> string \<Rightarrow> string" where
  "close_tag indent k = newline @ indent @ ''</'' @ k @ ''>''"

text \<open>
  \<^verbatim>\<open>Elements(elems, l, c)\<close> writes to standard output; the model returns the text written,
  or \<open>None\<close> when \<^verbatim>\<open>strings.Repeat\<close> panics. \<open>Elements\<close> is the loop and \<open>Elements_body\<close>
  one round of it, for the entry with key \<open>k\<close>. The function \<^verbatim>\<open>Attributes\<close> of the same
  package, which prints the attribute statistics, is the parameter \<open>Attributes_out\<close>: the
  text it writes for \<^verbatim>\<open>elem.At\<close>.
\<close>

function Elements ::
    "('at \<Rightarrow> string) \<Rightarrow> (string \<times> 'at Element) list \<Rightarrow> int \<Rightarrow> int \<Rightarrow> string option"
  and Elements_body ::
    "('at \<Rightarrow> string) \<Rightarrow> string \<Rightarrow> 'at Element \<Rightarrow> int \<Rightarrow> int \<Rightarrow> string option"
where
  "Elements Attributes_out [] l c = Some []"
| "Elements Attributes_out ((k, elem) # rest) l c =
     (case Elements_body Attributes_out k elem l c of
        None \<Rightarrow> None
      | Some out \<Rightarrow>
          (case Elements Attributes_out rest l c of
             None \<Rightarrow> None
           | Some out' \<Rightarrow> Some (out @ out')))"
| "Elements_body Attributes_out k (Element cn at el) l c =
     (case strings_Repeat ''  '' l of
        None \<Rightarrow> None
      | Some indent \<Rightarrow>
          (let out = open_tag indent k
                 @ count_attr cn
                 @ (if cn < c then optional_attr else [])
                 @ Attributes_out at
           in if int (length el) > 0
              then (case Elements Attributes_out el (l + 1) cn of
                      None \<Rightarrow> None
                    | Some inner \<Rightarrow> Some (out @ ''>'' @ inner @ close_tag indent k))
              else Some (out @ '' />'')))"
  by pat_completeness auto
termination
  by (relation "measure (\<lambda>x. case x of
         Inl (pa, es, l, c) \<Rightarrow> size_list (size_prod (\<lambda>_. 0) size) es
       | Inr (pa, k, elem, l, c) \<Rightarrow> size elem)") auto








section \<open>Results about the parser\<close>

subsection \<open>The loop and the open elements\<close>

lemma loop_append:
  "loop s (xs @ ys) = (case loop s xs of None \<Rightarrow> None | Some s' \<Rightarrow> loop s' ys)"
  by (induction xs arbitrary: s) (auto split: option.splits)

text \<open>A path stays a path when the store grows and the \<^verbatim>\<open>Parent\<close> fields are kept.\<close>

lemma open_path_frame:
  "open_path ns p as \<Longrightarrow> length ns \<le> length ns' \<Longrightarrow>
   (\<And>a. a < length ns \<Longrightarrow> Parent (ns' ! a) = Parent (ns ! a)) \<Longrightarrow> open_path ns' p as"
  by (induction as arbitrary: p) auto

lemma Parent_nth_update:
  "(\<And>n. Parent (f n) = Parent n) \<Longrightarrow> Parent (ns[p := f (ns ! p)] ! b) = Parent (ns ! b)"
  by (cases "b = p"; cases "p < length ns") (simp_all add: list_update_beyond)

lemma open_path_init: "open_path (nodes init) (e init) []"
  by (simp add: init_def)

lemma step_start_path:
  assumes "open_path (nodes s) (e s) as"
  shows "\<exists>s'. step s (xml_StartElement name attr) = Some s' \<and>
           open_path (nodes s') (e s') (length (nodes s) # as)"
proof -
  let ?a = "length (nodes s)"
  let ?ns = "case e s of None \<Rightarrow> nodes s
      | Some p \<Rightarrow> (nodes s)[p := (nodes s ! p)\<lparr>Children := Children (nodes s ! p) @ [?a]\<rparr>]"
  let ?el = "\<lparr>Parent = e s, Name = Local name,
                Attributes = map (\<lambda>(n, v). (Local n, v)) attr,
                Children = [], Text = []\<rparr>"
  have len: "length ?ns = ?a" by (simp split: option.splits)
  have par: "\<And>b. b < ?a \<Longrightarrow> Parent ((?ns @ [?el]) ! b) = Parent (nodes s ! b)"
    using Parent_nth_update [of "\<lambda>n. n\<lparr>Children := Children n @ [?a]\<rparr>" "nodes s"]
    by (simp add: nth_append split: option.splits)
  have "open_path (?ns @ [?el]) (e s) as"
    by (rule open_path_frame [OF assms]) (simp_all add: len par)
  then show ?thesis
    by (simp add: Let_def len nth_append)
qed

lemma step_end_path:
  assumes "open_path (nodes s) (e s) (a # as)"
  shows "\<exists>s'. step s (xml_EndElement name) = Some s' \<and> open_path (nodes s') (e s') as"
  using assms by auto

lemma step_chardata_path:
  assumes "open_path (nodes s) (e s) as"
  shows "\<exists>s'. step s (xml_CharData d) = Some s' \<and> open_path (nodes s') (e s') as"
proof (cases "e s")
  case None
  with assms show ?thesis by simp
next
  case (Some a)
  have "open_path ((nodes s)[a := (nodes s ! a)\<lparr>Text := TrimSpace d\<rparr>]) (e s) as"
    using assms Parent_nth_update [of "\<lambda>n. n\<lparr>Text := TrimSpace d\<rparr>" "nodes s" a]
    by (auto intro: open_path_frame)
  with Some show ?thesis by simp
qed

text \<open>The loop panics exactly when an end tag arrives with no element open.\<close>

lemma loop_panics_iff:
  "open_path (nodes s) (e s) as \<Longrightarrow> (loop s ts = None) = underflow (length as) ts"
proof (induction ts arbitrary: s as)
  case Nil
  then show ?case by simp
next
  case (Cons t ts)
  show ?case
  proof (cases t)
    case (xml_StartElement name attr)
    from step_start_path [OF Cons.prems, of name attr] obtain s'
      where s': "step s t = Some s'" "open_path (nodes s') (e s') (length (nodes s) # as)"
      unfolding xml_StartElement by blast
    from Cons.IH [OF s'(2)] s'(1) show ?thesis by (simp add: xml_StartElement)
  next
    case (xml_EndElement name)
    show ?thesis
    proof (cases as)
      case Nil
      with Cons.prems have "e s = None" by simp
      then show ?thesis by (simp add: xml_EndElement Nil)
    next
      case (Cons a as')
      from step_end_path [of s a as' name] Cons.prems obtain s'
        where s': "step s t = Some s'" "open_path (nodes s') (e s') as'"
        unfolding xml_EndElement Cons by blast
      from Cons.IH [OF s'(2)] s'(1) show ?thesis by (simp add: xml_EndElement Cons)
    qed
  next
    case (xml_CharData d)
    from step_chardata_path [OF Cons.prems, of d] obtain s'
      where s': "step s t = Some s'" "open_path (nodes s') (e s') as"
      unfolding xml_CharData by blast
    from Cons.IH [OF s'(2)] s'(1) show ?thesis by (simp add: xml_CharData)
  next
    case (xml_Comment c)
    from Cons.IH [OF Cons.prems] show ?thesis by (simp add: xml_Comment)
  next
    case (xml_ProcInst target inst)
    from Cons.IH [of "s\<lparr>doc := (doc s)\<lparr>ProcInst := stringifyProcInst target inst\<rparr>\<rparr>" as]
      Cons.prems
    show ?thesis by (simp add: xml_ProcInst)
  next
    case (xml_Directive d)
    from Cons.IH
      [of "s\<lparr>doc := (doc s)\<lparr>Directives := Directives (doc s) @ [stringifyDirective d]\<rparr>\<rparr>" as]
      Cons.prems
    show ?thesis by (simp add: xml_Directive)
  qed
qed

lemma no_panic_from_init: "(loop init ts = None) = underflow 0 ts"
  using loop_panics_iff [OF open_path_init, of ts] by simp

lemma step_path_ex:
  assumes "open_path (nodes s) (e s) as" and "step s t = Some s'"
  shows "\<exists>as'. open_path (nodes s') (e s') as'"
proof (cases t)
  case (xml_StartElement name attr)
  with assms step_start_path [of s as name attr] show ?thesis by (metis option.inject)
next
  case (xml_EndElement name)
  show ?thesis
  proof (cases as)
    case Nil
    with assms show ?thesis by (simp add: xml_EndElement)
  next
    case (Cons b bs)
    with assms step_end_path [of s b bs name] show ?thesis
      unfolding xml_EndElement by (metis option.inject)
  qed
next
  case (xml_CharData d)
  with assms step_chardata_path [of s as d] show ?thesis by (metis option.inject)
qed (use assms in auto)

lemma loop_path_ex:
  "open_path (nodes s) (e s) as \<Longrightarrow> loop s ts = Some s' \<Longrightarrow>
   \<exists>as'. open_path (nodes s') (e s') as'"
proof (induction ts arbitrary: s as)
  case Nil
  then show ?case by auto
next
  case (Cons t ts)
  then obtain s1 where s1: "step s t = Some s1" "loop s1 ts = Some s'"
    by (auto split: option.splits)
  from step_path_ex [OF Cons.prems(1) s1(1)] obtain as1
    where "open_path (nodes s1) (e s1) as1" ..
  from Cons.IH [OF this s1(2)] show ?case .
qed

text \<open>In every state the loop reaches, the current node is an allocated node.\<close>

lemma reachable_cur_valid:
  assumes "loop init pre = Some s" and "e s = Some a"
  shows "a < length (nodes s)"
proof -
  from loop_path_ex [OF open_path_init assms(1)] obtain as
    where "open_path (nodes s) (e s) as" ..
  with assms(2) show ?thesis by (cases as) auto
qed

subsection \<open>Errors and documents\<close>

text \<open>
  C10. Whenever \<^verbatim>\<open>parse\<close> or \<^verbatim>\<open>File\<close> returns a non-nil error, the document it returns is
  nil: no partially built document comes with an error.
\<close>

theorem error_implies_nil_document:
  "(parse r = Return d (Some err) \<longrightarrow> d = None) \<and>
   (File os_Open filename = Return d' (Some err') \<longrightarrow> d' = None)"
  by (auto simp: parse_def File_def split: prod.splits option.splits if_splits sum.splits)

theorem error_implies_nil_document_witness:
  "parse ([xml_StartElement \<lparr>Space = [], Local = ''a''\<rparr> []], SyntaxError ''unexpected EOF'')
     = Return None (Some (SyntaxError ''unexpected EOF'')) \<and>
   File (\<lambda>f. Inl (PathError f)) ''missing.xml'' = Return None (Some (PathError ''missing.xml''))"
  using error_implies_nil_document
    [of "([xml_StartElement \<lparr>Space = [], Local = ''a''\<rparr> []], SyntaxError ''unexpected EOF'')"
        None "SyntaxError ''unexpected EOF''" "\<lambda>f. Inl (PathError f)" "''missing.xml''"
        None "PathError ''missing.xml''"]
  by (simp add: parse_def File_def init_def)

text \<open>
  C4, as stated: a well-formed input without any start element, an empty byte stream
  included, gives a document with a nil root and a nil error. This fails for the empty
  stream: the first \<^verbatim>\<open>Token()\<close> reports \<^verbatim>\<open>io.EOF\<close>, and \<^verbatim>\<open>parse\<close> returns that error with a
  nil document.
\<close>

theorem empty_input_is_an_error: "parse ([], EOF) = Return None (Some EOF)"
  by (simp add: parse_def)

lemma loop_no_start:
  "e s = None \<Longrightarrow> \<forall>name attr. xml_StartElement name attr \<notin> set ts \<Longrightarrow>
   loop s ts = Some s' \<Longrightarrow>
   e s' = None \<and> Root (doc s') = Root (doc s) \<and> nodes s' = nodes s"
proof (induction ts arbitrary: s)
  case Nil
  then show ?case by simp
next
  case (Cons t ts)
  from Cons.prems obtain s1 where s1: "step s t = Some s1" "loop s1 ts = Some s'"
    by (auto split: option.splits)
  from Cons.prems(1,2) s1(1)
  have "e s1 = None \<and> Root (doc s1) = Root (doc s) \<and> nodes s1 = nodes s"
    by (cases t) auto
  moreover from this Cons.IH [of s1] Cons.prems(2) s1(2)
  have "e s' = None \<and> Root (doc s') = Root (doc s1) \<and> nodes s' = nodes s1" by simp
  ultimately show ?case by simp
qed

text \<open>
  C4, amended: when the reader delivers at least one token (a processing instruction, a
  directive, a comment or character data), no start element and no end tag without an open
  element, and then reports \<^verbatim>\<open>io.EOF\<close>, \<^verbatim>\<open>parse\<close> returns a document with a nil root, no
  node, and a nil error.
\<close>

theorem no_element_nil_root:
  assumes "ts \<noteq> []" and "\<forall>name attr. xml_StartElement name attr \<notin> set ts"
    and "\<not> underflow 0 ts"
  shows "\<exists>d. parse (ts, EOF) = Return (Some (d, [])) None \<and> Root d = None"
proof -
  from assms(3) obtain s where s: "loop init ts = Some s"
    using no_panic_from_init [of ts] by auto
  from loop_no_start [OF _ assms(2) s]
  have "Root (doc s) = None" "nodes s = []" by (simp_all add: init_def)
  with s assms(1) show ?thesis by (simp add: parse_def)
qed

theorem no_element_nil_root_witness:
  "[xml_ProcInst ''xml'' ''version=1.0'', xml_Directive ''DOCTYPE x'', xml_CharData '' ''] \<noteq> [] \<and>
   (\<forall>name attr. xml_StartElement name attr
       \<notin> set [xml_ProcInst ''xml'' ''version=1.0'', xml_Directive ''DOCTYPE x'', xml_CharData '' '']) \<and>
   \<not> underflow 0 [xml_ProcInst ''xml'' ''version=1.0'', xml_Directive ''DOCTYPE x'', xml_CharData '' ''] \<and>
   (\<exists>d. parse ([xml_ProcInst ''xml'' ''version=1.0'', xml_Directive ''DOCTYPE x'', xml_CharData '' ''], EOF)
       = Return (Some (d, [])) None \<and> Root d = None)"
  using no_element_nil_root
    [of "[xml_ProcInst ''xml'' ''version=1.0'', xml_Directive ''DOCTYPE x'', xml_CharData '' '']"]
  by simp

text \<open>
  C5, as stated: a read error other than \<^verbatim>\<open>io.EOF\<close> comes back wrapped in a \<open>ParseError\<close>.
  It comes back bare: here the decoder's syntax error itself is returned.
\<close>

theorem read_error_not_wrapped:
  "parse ([xml_StartElement \<lparr>Space = [], Local = ''a''\<rparr> []], SyntaxError ''unexpected EOF'')
     = Return None (Some (SyntaxError ''unexpected EOF'')) \<and>
   SyntaxError ''unexpected EOF'' \<noteq> ParseError (SyntaxError ''unexpected EOF'')"
  by (simp add: parse_def init_def)

text \<open>
  C5, amended: when the reader reports an error other than \<^verbatim>\<open>io.EOF\<close> (after tokens among
  which no end tag arrives without an open element), \<^verbatim>\<open>parse\<close> fails: it returns a nil
  document and, as its error, the reader's error itself, not wrapped.
\<close>

theorem read_error_returned_bare:
  assumes "err \<noteq> EOF" and "\<not> underflow 0 ts"
  shows "parse (ts, err) = Return None (Some err)"
proof -
  from assms(2) obtain s where "loop init ts = Some s"
    using no_panic_from_init [of ts] by auto
  with assms(1) show ?thesis by (simp add: parse_def)
qed

theorem read_error_returned_bare_witness:
  "SyntaxError ''unexpected EOF'' \<noteq> EOF \<and>
   \<not> underflow 0 [xml_StartElement \<lparr>Space = [], Local = ''a''\<rparr> [], xml_CharData ''x''] \<and>
   parse ([xml_StartElement \<lparr>Space = [], Local = ''a''\<rparr> [], xml_CharData ''x''],
          SyntaxError ''unexpected EOF'')
     = Return None (Some (SyntaxError ''unexpected EOF''))"
  using read_error_returned_bare [of "SyntaxError ''unexpected EOF''"
      "[xml_StartElement \<lparr>Space = [], Local = ''a''\<rparr> [], xml_CharData ''x'']"]
  by simp

lemma Decoder_Tokens_no_underflow:
  "\<not> underflow (length stk) (fst (Decoder_Tokens stk ts err))"
proof (induction ts arbitrary: stk)
  case Nil
  show ?case by simp
next
  case (Cons t ts)
  show ?case
  proof (cases t)
    case (xml_StartElement name attr)
    with Cons [of "name # stk"] show ?thesis by (auto split: prod.splits)
  next
    case (xml_EndElement name)
    show ?thesis
    proof (cases stk)
      case Nil
      then show ?thesis by (simp add: xml_EndElement)
    next
      case (Cons s stk')
      with Cons.IH [of stk'] show ?thesis by (auto simp: xml_EndElement split: prod.splits)
    qed
  qed (use Cons [of stk] in \<open>auto split: prod.splits\<close>)
qed

lemma Decoder_Tokens_rejects:
  "underflow (length stk) ts \<Longrightarrow> \<exists>msg. snd (Decoder_Tokens stk ts err) = SyntaxError msg"
proof (induction ts arbitrary: stk)
  case Nil
  then show ?case by simp
next
  case (Cons t ts)
  show ?case
  proof (cases t)
    case (xml_StartElement name attr)
    with Cons.IH [of "name # stk"] Cons.prems show ?thesis by (auto split: prod.splits)
  next
    case (xml_EndElement name)
    show ?thesis
    proof (cases stk)
      case Nil
      then show ?thesis by (simp add: xml_EndElement)
    next
      case (Cons s stk')
      with Cons.IH [of stk'] Cons.prems show ?thesis
        by (auto simp: xml_EndElement split: prod.splits)
    qed
  qed (use Cons.IH [of stk] Cons.prems in \<open>auto split: prod.splits\<close>)
qed

text \<open>On what the decoder delivers, \<^verbatim>\<open>parse\<close> never dereferences a nil current node.\<close>

lemma parse_Decoder_Tokens_no_panic: "parse (Decoder_Tokens [] ts err) \<noteq> Panic"
proof -
  obtain out err' where d: "Decoder_Tokens [] ts err = (out, err')"
    by (cases "Decoder_Tokens [] ts err")
  from Decoder_Tokens_no_underflow [of "[]" ts err] d have "\<not> underflow 0 out" by simp
  then obtain s where "loop init out = Some s"
    using no_panic_from_init [of out] by auto
  with d show ?thesis by (simp add: parse_def)
qed

text \<open>
  C6, as stated: an end tag seen while no node is open makes \<^verbatim>\<open>parse\<close> fail with a
  \<open>StructuralError\<close>. On the input \<^verbatim>\<open></a>\<close> \<^verbatim>\<open>parse\<close> does fail, but the error it returns is
  the syntax error of the decoder, which rejects the end tag instead of delivering it; the
  parser has no structural check and no error of its own.
\<close>

theorem unmatched_end_tag_is_syntax_error:
  "parse (Decoder_Tokens [] [xml_EndElement \<lparr>Space = [], Local = ''a''\<rparr>] EOF)
     = Return None (Some (SyntaxError ''unexpected end element </a>'')) \<and>
   SyntaxError ''unexpected end element </a>'' \<noteq> StructuralError ''unexpected end element </a>''"
  by (simp add: parse_def)

text \<open>
  C6, amended: if the input has an end tag at a point where no node is open, \<^verbatim>\<open>parse\<close>
  fails, and neither succeeds nor crashes: the token reader reports a syntax error (for
  that end tag, or for an earlier end tag that does not match its start tag), and \<^verbatim>\<open>parse\<close>
  returns that syntax error as received, with a nil document.
\<close>

theorem end_tag_without_open_node:
  assumes "underflow 0 ts"
  shows "\<exists>msg. Decoder_Tokens [] ts err = (fst (Decoder_Tokens [] ts err), SyntaxError msg) \<and>
           parse (Decoder_Tokens [] ts err) = Return None (Some (SyntaxError msg))"
proof -
  obtain out err' where d: "Decoder_Tokens [] ts err = (out, err')"
    by (cases "Decoder_Tokens [] ts err")
  from Decoder_Tokens_rejects [of "[]" ts err] assms d obtain msg
    where m: "err' = SyntaxError msg" by auto
  from Decoder_Tokens_no_underflow [of "[]" ts err] d have "\<not> underflow 0 out" by simp
  then obtain s where "loop init out = Some s"
    using no_panic_from_init [of out] by auto
  with d m show ?thesis by (simp add: parse_def)
qed

theorem end_tag_without_open_node_witness:
  "underflow 0 [xml_StartElement \<lparr>Space = [], Local = ''a''\<rparr> [],
                xml_EndElement \<lparr>Space = [], Local = ''a''\<rparr>,
                xml_EndElement \<lparr>Space = [], Local = ''b''\<rparr>] \<and>
   Decoder_Tokens [] [xml_StartElement \<lparr>Space = [], Local = ''a''\<rparr> [],
                      xml_EndElement \<lparr>Space = [], Local = ''a''\<rparr>,
                      xml_EndElement \<lparr>Space = [], Local = ''b''\<rparr>] EOF
     = ([xml_StartElement \<lparr>Space = [], Local = ''a''\<rparr> [],
         xml_EndElement \<lparr>Space = [], Local = ''a''\<rparr>],
        SyntaxError ''unexpected end element </b>'') \<and>
   parse (Decoder_Tokens [] [xml_StartElement \<lparr>Space = [], Local = ''a''\<rparr> [],
                             xml_EndElement \<lparr>Space = [], Local = ''a''\<rparr>,
                             xml_EndElement \<lparr>Space = [], Local = ''b''\<rparr>] EOF)
     = Return None (Some (SyntaxError ''unexpected end element </b>''))"
  using end_tag_without_open_node
    [of "[xml_StartElement \<lparr>Space = [], Local = ''a''\<rparr> [],
          xml_EndElement \<lparr>Space = [], Local = ''a''\<rparr>,
          xml_EndElement \<lparr>Space = [], Local = ''b''\<rparr>]" EOF]
  by auto

subsection \<open>Start tags and character data\<close>



lemma step_keeps_text:
  assumes "step s t = Some s'" and "a < length (nodes s)"
    and "case t of xml_CharData d \<Rightarrow> e s \<noteq> Some a | _ \<Rightarrow> True"
  shows "Text (nodes s' ! a) = Text (nodes s ! a) \<and> a < length (nodes s')"
proof (cases t)
  case (xml_StartElement name attr)
  have "Text ((nodes s)[p := (nodes s ! p)\<lparr>Children := Children (nodes s ! p) @ [length (nodes s)]\<rparr>] ! a)
          = Text (nodes s ! a)" for p
    by (cases "a = p"; cases "p < length (nodes s)") (simp_all add: list_update_beyond)
  with assms show ?thesis
    by (auto simp: xml_StartElement Let_def nth_append split: option.splits)
next
  case (xml_CharData d)
  with assms show ?thesis by (auto split: option.splits)
qed (use assms in \<open>auto split: option.splits\<close>)

lemma loop_keeps_text:
  "loop s ts = Some s' \<Longrightarrow> a < length (nodes s) \<Longrightarrow> no_text_for s a ts \<Longrightarrow>
   Text (nodes s' ! a) = Text (nodes s ! a)"
proof (induction ts arbitrary: s)
  case Nil
  then show ?case by simp
next
  case (Cons t ts)
  from Cons.prems(1) obtain s1 where s1: "step s t = Some s1" "loop s1 ts = Some s'"
    by (auto split: option.splits)
  from Cons.prems(3) have t: "case t of xml_CharData d \<Rightarrow> e s \<noteq> Some a | _ \<Rightarrow> True"
    and rest: "no_text_for s1 a ts" using s1(1) by simp_all
  from step_keeps_text [OF s1(1) Cons.prems(2) t]
  have k: "Text (nodes s1 ! a) = Text (nodes s ! a)" "a < length (nodes s1)" by simp_all
  from Cons.IH [OF s1(2) k(2) rest] k(1) show ?case by simp
qed

text \<open>
  C7. When a character data token arrives while node \<open>a\<close> is the current (open) node, the
  text of \<open>a\<close> becomes the token with leading and trailing white space trimmed, whatever
  text \<open>a\<close> had before. If no later character data token arrives while \<open>a\<close> is current,
  that is still the text of \<open>a\<close> in the document \<^verbatim>\<open>parse\<close> returns: the text of an element
  is the trimmed content of the last character data directly inside it.
\<close>

theorem chardata_sets_text:
  assumes "loop init pre = Some s" and "e s = Some a"
  shows "\<exists>s'. step s (xml_CharData d) = Some s' \<and>
           Text (nodes s' ! a) = TrimSpace d \<and>
           (\<forall>post dc ns. no_text_for s' a post \<and>
                parse (pre @ xml_CharData d # post, EOF) = Return (Some (dc, ns)) None \<longrightarrow>
              Text (ns ! a) = TrimSpace d)"
proof -
  let ?s' = "s\<lparr>nodes := (nodes s)[a := (nodes s ! a)\<lparr>Text := TrimSpace d\<rparr>]\<rparr>"
  have a: "a < length (nodes s)" using assms by (rule reachable_cur_valid)
  have st: "step s (xml_CharData d) = Some ?s'" using assms(2) by simp
  have tx: "Text (nodes ?s' ! a) = TrimSpace d" using a by simp
  have "Text (ns ! a) = TrimSpace d"
    if nt: "no_text_for ?s' a post"
      and p: "parse (pre @ xml_CharData d # post, EOF) = Return (Some (dc, ns)) None"
    for post dc ns
  proof -
    from p assms(1) st obtain s'' where l: "loop ?s' post = Some s''" and ns: "ns = nodes s''"
      by (auto simp: parse_def loop_append split: option.splits)
    from loop_keeps_text [OF l _ nt] a tx ns show ?thesis by simp
  qed
  with st tx show ?thesis by blast
qed

theorem chardata_sets_text_witness:
  "\<exists>s s' dc ns.
     loop init [xml_StartElement \<lparr>Space = [], Local = ''a''\<rparr> [], xml_CharData '' t1 '',
                xml_StartElement \<lparr>Space = [], Local = ''b''\<rparr> [],
                xml_EndElement \<lparr>Space = [], Local = ''b''\<rparr>] = Some s \<and>
     e s = Some 0 \<and> Text (nodes s ! 0) = ''t1'' \<and>
     step s (xml_CharData '' t2 '') = Some s' \<and> Text (nodes s' ! 0) = ''t2'' \<and>
     no_text_for s' 0 [xml_EndElement \<lparr>Space = [], Local = ''a''\<rparr>] \<and>
     parse ([xml_StartElement \<lparr>Space = [], Local = ''a''\<rparr> [], xml_CharData '' t1 '',
             xml_StartElement \<lparr>Space = [], Local = ''b''\<rparr> [],
             xml_EndElement \<lparr>Space = [], Local = ''b''\<rparr>]
            @ xml_CharData '' t2 '' # [xml_EndElement \<lparr>Space = [], Local = ''a''\<rparr>], EOF)
       = Return (Some (dc, ns)) None \<and>
     Text (ns ! 0) = ''t2''"
proof -
  let ?pre = "[xml_StartElement \<lparr>Space = [], Local = ''a''\<rparr> [], xml_CharData '' t1 '',
               xml_StartElement \<lparr>Space = [], Local = ''b''\<rparr> [],
               xml_EndElement \<lparr>Space = [], Local = ''b''\<rparr>]"
  let ?post = "[xml_EndElement \<lparr>Space = [], Local = ''a''\<rparr>]"
  let ?b = "\<lparr>Parent = Some 0, Name = ''b'', Attributes = [], Children = [], Text = []\<rparr>"
  let ?s = "\<lparr>doc = \<lparr>ProcInst = [], Directives = [], Root = Some 0\<rparr>,
            nodes = [\<lparr>Parent = None, Name = ''a'', Attributes = [], Children = [1],
                      Text = ''t1''\<rparr>, ?b],
            e = Some 0\<rparr>"
  let ?s' = "\<lparr>doc = \<lparr>ProcInst = [], Directives = [], Root = Some 0\<rparr>,
            nodes = [\<lparr>Parent = None, Name = ''a'', Attributes = [], Children = [1],
                      Text = ''t2''\<rparr>, ?b],
            e = Some 0\<rparr>"
  have t1: "TrimSpace '' t1 '' = ''t1''"
    by (simp add: TrimSpace_def space_prefix_def space_suffix_def white_space_def)
  have t2: "TrimSpace '' t2 '' = ''t2''"
    by (simp add: TrimSpace_def space_prefix_def space_suffix_def white_space_def)
  have l: "loop init ?pre = Some ?s"
    by (simp add: init_def t1)
  have c: "e ?s = Some 0" by simp
  have st: "step ?s (xml_CharData '' t2 '') = Some ?s'" by (simp add: t2)
  have nt: "no_text_for ?s' 0 ?post" by simp
  have p: "parse (?pre @ xml_CharData '' t2 '' # ?post, EOF)
             = Return (Some (doc ?s', nodes ?s')) None"
    by (simp add: parse_def init_def t1 t2)
  from chardata_sets_text [OF l c, of "'' t2 ''"] obtain s1
    where s1: "step ?s (xml_CharData '' t2 '') = Some s1"
      and last: "\<And>post dc ns. no_text_for s1 0 post \<Longrightarrow>
                  parse (?pre @ xml_CharData '' t2 '' # post, EOF) = Return (Some (dc, ns)) None \<Longrightarrow>
                  Text (ns ! 0) = TrimSpace '' t2 ''"
    by blast
  from s1 st have "s1 = ?s'" by (metis option.inject)
  with last [OF _ p] nt have "Text (nodes ?s' ! 0) = TrimSpace '' t2 ''" by simp
  with t2 have "Text (nodes ?s' ! 0) = ''t2''" by simp
  with l st nt p show ?thesis
    by (intro exI [of _ ?s] exI [of _ ?s'] exI [of _ "doc ?s'"] exI [of _ "nodes ?s'"]) simp
qed

section \<open>Results about the attribute statistics\<close>

lemma in_foldl_Add:
  "in' (foldl Add a ns) k =
     (if count_list (map fst ns) k = 0 then in' a k
      else Some ((case in' a k of None \<Rightarrow> 0 | Some x \<Rightarrow> x)
                 + word_of_nat (count_list (map fst ns) k)))"
proof (induction ns arbitrary: a)
  case Nil
  show ?case by simp
next
  case (Cons n ns)
  show ?case
    by (simp add: Cons.IH) (auto simp: Add_def Let_def split: option.splits)
qed

text \<open>A number below \<open>2 ^ (LENGTH('w) - 1)\<close> is the signed value of its machine word.\<close>

lemma sint_count:
  assumes "n < 2 ^ (LENGTH('w::len) - 1)"
  shows "sint (word_of_nat n :: 'w word) = int n"
proof -
  have "int n < 2 ^ (LENGTH('w) - 1)" using assms
    by (metis of_nat_less_iff of_nat_numeral of_nat_power)
  moreover have "- (2 ^ (LENGTH('w) - 1)) \<le> int n"
    by (rule order_trans [of _ 0]) simp_all
  ultimately show ?thesis
    by (simp add: signed_of_nat signed_take_bit_int_eq_self)
qed

text \<open>Below the largest \<^verbatim>\<open>int\<close>, \<^verbatim>\<open>x++\<close> adds one.\<close>

lemma sint_succ:
  assumes "sint (x :: 'w::len word) < 2 ^ (LENGTH('w) - 1) - 1"
  shows "sint (x + 1) = sint x + 1"
proof -
  have "x + 1 = word_of_int (sint x + 1)" by simp
  then have "sint (x + 1) = signed_take_bit (LENGTH('w) - 1) (sint x + 1)"
    by (simp only: sint_sbintrunc')
  moreover have "- (2 ^ (LENGTH('w) - 1)) \<le> sint x + 1"
    using sint_ge [of x] by simp
  moreover have "sint x + 1 < 2 ^ (LENGTH('w) - 1)" using assms by simp
  ultimately show ?thesis by (simp add: signed_take_bit_int_eq_self)
qed

text \<open>At the largest \<^verbatim>\<open>int\<close> of 64 bits, \<^verbatim>\<open>Add\<close> wraps the count around to the smallest.\<close>

lemma Add_wraps:
  "map_option sint (Get (Add \<lparr>in' = [''id'' \<mapsto> (0x7FFFFFFFFFFFFFFF :: 64 word)]\<rparr> (''id'', v)) ''id'')
     = Some (- (2 ^ 63))"
  by (simp add: Get_def Add_def)

text \<open>
  C2. One \<^verbatim>\<open>Add\<close> maps a name not seen before to 1 and replaces the count \<open>x\<close> of a name
  seen before by \<open>x + 1\<close>, which is one more than \<open>x\<close> as long as \<open>x\<close> is below the largest
  \<^verbatim>\<open>int\<close>. After any sequence of \<^verbatim>\<open>Add\<close> calls on a new \<^verbatim>\<open>attributesWithLock\<close>, \<^verbatim>\<open>Get()\<close> maps
  every name added fewer than \<open>2 ^ (LENGTH('w) - 1)\<close> times (that is, no more often than
  the largest \<^verbatim>\<open>int\<close>) to the number of calls made with that name, it has no entry for a
  name never added, and \<^verbatim>\<open>Len()\<close> is the number of distinct names added.
\<close>

theorem Attributes_count_adds:
  "(Get (a :: 'w::len attribute attributesWithLock) (fst n) = None \<longrightarrow>
      Get (Add a n) (fst n) = Some 1) \<and>
   (Get a (fst n) = Some x \<longrightarrow>
      Get (Add a n) (fst n) = Some (x + 1) \<and>
      (sint x < 2 ^ (LENGTH('w) - 1) - 1 \<longrightarrow> sint (x + 1) = sint x + 1)) \<and>
   (count_list (map fst ns) k < 2 ^ (LENGTH('w) - 1) \<longrightarrow>
      map_option sint (Get (foldl Add (newAttributesWithLock :: 'w attribute attributesWithLock) ns) k) =
        (if k \<in> set (map fst ns) then Some (int (count_list (map fst ns) k)) else None)) \<and>
   Len (foldl Add (newAttributesWithLock :: 'w attribute attributesWithLock) ns)
     = int (card (set (map fst ns)))"
proof -
  have 1: "Get a (fst n) = None \<longrightarrow> Get (Add a n) (fst n) = Some 1"
    by (simp add: Get_def Add_def Let_def)
  have 2: "Get a (fst n) = Some x \<longrightarrow> Get (Add a n) (fst n) = Some (x + 1)" for x
    by (simp add: Get_def Add_def Let_def)
  have g: "Get (foldl Add (newAttributesWithLock :: 'w attribute attributesWithLock) ns) k =
     (if k \<in> set (map fst ns) then Some (word_of_nat (count_list (map fst ns) k)) else None)"
    for k
    unfolding Get_def in_foldl_Add
    by (simp add: newAttributesWithLock_def count_list_0_iff)
  have 3: "count_list (map fst ns) k < 2 ^ (LENGTH('w) - 1) \<longrightarrow>
      map_option sint (Get (foldl Add (newAttributesWithLock :: 'w attribute attributesWithLock) ns) k) =
        (if k \<in> set (map fst ns) then Some (int (count_list (map fst ns) k)) else None)" for k
    by (simp add: g sint_count)
  have "dom (in' (foldl Add (newAttributesWithLock :: 'w attribute attributesWithLock) ns))
          = set (map fst ns)"
    using g by (auto simp: Get_def dom_def split: if_splits)
  then have 4: "Len (foldl Add (newAttributesWithLock :: 'w attribute attributesWithLock) ns)
                  = int (card (set (map fst ns)))"
    by (simp add: Len_def)
  have 5: "sint x < 2 ^ (LENGTH('w) - 1) - 1 \<longrightarrow> sint (x + 1) = sint x + 1"
    for x :: "'w word"
    using sint_succ [of x] by simp
  from 1 2 [of x] 3 [of k] 4 5 [of x] show ?thesis by (intro conjI impI) simp_all
qed

theorem Attributes_count_adds_witness:
  "Get (newAttributesWithLock :: 64 attribute attributesWithLock) (fst (''id'', ''1'')) = None \<and>
   Get (Add (newAttributesWithLock :: 64 attribute attributesWithLock) (''id'', ''1'')) ''id''
     = Some 1 \<and>
   Get \<lparr>in' = [''id'' \<mapsto> (5 :: 64 word)]\<rparr> (fst (''id'', ''1'')) = Some 5 \<and>
   sint (5 :: 64 word) < 2 ^ (LENGTH(64) - 1) - 1 \<and>
   Get (Add \<lparr>in' = [''id'' \<mapsto> (5 :: 64 word)]\<rparr> (''id'', ''1'')) ''id'' = Some 6 \<and>
   count_list (map fst [(''class'', ''x''), (''id'', ''1''), (''id'', ''2'')]) ''id''
     < 2 ^ (LENGTH(64) - 1) \<and>
   map_option sint (Get (foldl Add (newAttributesWithLock :: 64 attribute attributesWithLock)
       [(''class'', ''x''), (''id'', ''1''), (''id'', ''2'')]) ''id'') = Some 2 \<and>
   Len (foldl Add (newAttributesWithLock :: 64 attribute attributesWithLock)
       [(''class'', ''x''), (''id'', ''1''), (''id'', ''2'')]) = 2"
  using Attributes_count_adds
      [where 'w = 64 and a = newAttributesWithLock and n = "(''id'', ''1'')"
         and ns = "[(''class'', ''x''), (''id'', ''1''), (''id'', ''2'')]" and k = "''id''"]
    Attributes_count_adds
      [where 'w = 64 and a = "\<lparr>in' = [''id'' \<mapsto> (5 :: 64 word)]\<rparr>" and n = "(''id'', ''1'')"
         and ns = "[]" and x = 5]
  by (auto simp: Get_def newAttributesWithLock_def)

section \<open>Results about the schema printer\<close>

lemma strings_Repeat_nonneg:
  "0 \<le> l \<Longrightarrow> strings_Repeat s l = Some (concat (replicate (nat l) s))"
  by (simp add: strings_Repeat_def)

text \<open>
  A negative depth makes \<^verbatim>\<open>strings.Repeat\<close> panic in the first round of the loop; with a
  depth that is not negative the printer does not panic.
\<close>

lemma Elements_negative_depth:
  "l < 0 \<Longrightarrow> es \<noteq> [] \<Longrightarrow> Elements pa es l c = None"
  by (cases es; cases "snd (hd es)") (auto simp: strings_Repeat_def)


lemma Elements_returns:
  "0 \<le> l \<Longrightarrow> \<exists>out. Elements pa es l c = Some out"
  "0 \<le> l \<Longrightarrow> \<exists>out. Elements_body pa k elem l c = Some out"
proof (induction pa es l c and pa k elem l c rule: Elements_Elements_body.induct)
  case (1 pa l c)
  then show ?case by simp
next
  case (2 pa k elem rest l c)
  then show ?case by auto
next
  case (3 pa k cn at el l c)
  show ?case
  proof (cases "el = []")
    case True
    with "3.prems" show ?thesis by (simp add: strings_Repeat_nonneg)
  next
    case False
    from "3.prems" have "0 \<le> l + 1" by simp
    with "3.IH" [OF strings_Repeat_nonneg [OF "3.prems"] refl] False
    obtain inner where "Elements pa el (l + 1) cn = Some inner" by auto
    with "3.prems" show ?thesis by (simp add: strings_Repeat_nonneg Let_def)
  qed
qed

text \<open>What one round of the loop writes.\<close>

lemma Elements_body_eq:
  assumes "0 \<le> l"
  shows "\<exists>indent inner. strings_Repeat ''  '' l = Some indent \<and>
           Elements pa (El elem) (l + 1) (Cn elem) = Some inner \<and>
           Elements_body pa k elem l c =
             Some (open_tag indent k @ count_attr (Cn elem)
                   @ (if Cn elem < c then optional_attr else [])
                   @ pa (At elem)
                   @ (if El elem = [] then '' />'' else ''>'' @ inner @ close_tag indent k))"
proof -
  from assms have "0 \<le> l + 1" by simp
  from Elements_returns(1) [OF this, of pa "El elem" "Cn elem"]
  obtain inner where "Elements pa (El elem) (l + 1) (Cn elem) = Some inner" ..
  with assms show ?thesis
    by (cases elem) (simp add: strings_Repeat_nonneg Let_def)
qed

lemma Elements_append:
  "Elements pa (xs @ ys) l c =
     (case Elements pa xs l c of
        None \<Rightarrow> None
      | Some out \<Rightarrow>
          (case Elements pa ys l c of None \<Rightarrow> None | Some out' \<Rightarrow> Some (out @ out')))"
  by (induction xs) (auto split: option.splits)


lemma Elements_concat:
  assumes "0 \<le> l"
  shows "Elements pa es l c =
           Some (concat (map (\<lambda>(k, elem). the (Elements_body pa k elem l c)) es))"
proof (induction es)
  case Nil
  show ?case by simp
next
  case (Cons x es)
  obtain k elem where x: "x = (k, elem)" by (cases x)
  from Elements_returns(2) [OF assms, of pa k elem c] obtain out
    where "Elements_body pa k elem l c = Some out" ..
  with Cons x show ?case by simp
qed

text \<open>
  C1. For every entry \<open>(k, elem)\<close> of the map, wherever the iteration meets it, the printer
  called with parent count \<open>c\<close> writes the opening marker and the count, then the optional
  marker exactly when \<open>Cn elem < c\<close>, then the attributes; and the children of \<open>elem\<close> are
  written by the recursive call with parent count \<open>Cn elem\<close>, so that the same rule marks
  a child optional exactly when its count is below the count of \<open>elem\<close>.
\<close>

theorem optional_iff_count_below_parent:
  assumes "0 \<le> l"
  shows "\<exists>before indent inner after.
           Elements pa pre l c = Some before \<and> Elements pa post l c = Some after \<and>
           strings_Repeat ''  '' l = Some indent \<and>
           Elements pa (El elem) (l + 1) (Cn elem) = Some inner \<and>
           Elements pa (pre @ (k, elem) # post) l c =
             Some (before
                   @ open_tag indent k @ count_attr (Cn elem)
                   @ (if Cn elem < c then optional_attr else [])
                   @ pa (At elem)
                   @ (if El elem = [] then '' />'' else ''>'' @ inner @ close_tag indent k)
                   @ after)"
proof -
  from Elements_returns(1) [OF assms] obtain before after
    where ba: "Elements pa pre l c = Some before" "Elements pa post l c = Some after"
    by meson
  from Elements_body_eq [OF assms, of pa elem k c] obtain indent inner
    where b: "strings_Repeat ''  '' l = Some indent"
      "Elements pa (El elem) (l + 1) (Cn elem) = Some inner"
      "Elements_body pa k elem l c =
             Some (open_tag indent k @ count_attr (Cn elem)
                   @ (if Cn elem < c then optional_attr else [])
                   @ pa (At elem)
                   @ (if El elem = [] then '' />'' else ''>'' @ inner @ close_tag indent k))"
    by blast
  from ba b show ?thesis by (simp add: Elements_append)
qed

theorem optional_iff_count_below_parent_witness:
  "(0::int) \<le> 0 \<and> (0::int) \<le> 0 + 1 \<and>
   Elements (\<lambda>_. []) ([] @ (''b'', Element 7 () []) # [(''d'', Element 10 () [])]) (0 + 1) 10
     = Some (open_tag ''  '' ''b'' @ count_attr 7 @ optional_attr @ '' />''
             @ open_tag ''  '' ''d'' @ count_attr 10 @ '' />'') \<and>
   Elements (\<lambda>_. [])
      ([] @ (''a'', Element 10 () [(''b'', Element 7 () []), (''d'', Element 10 () [])]) # []) 0 10
     = Some (open_tag [] ''a'' @ count_attr 10 @ ''>''
             @ open_tag ''  '' ''b'' @ count_attr 7 @ optional_attr @ '' />''
             @ open_tag ''  '' ''d'' @ count_attr 10 @ '' />''
             @ close_tag [] ''a'') \<and>
   open_tag ''  '' ''b'' @ count_attr 7 @ optional_attr @ '' />''
     = newline @ ''  <b _count='' @ quote @ ''7'' @ quote
       @ '' _optional='' @ quote @ ''true'' @ quote @ '' />'' \<and>
   open_tag ''  '' ''d'' @ count_attr 10 @ '' />''
     = newline @ ''  <d _count='' @ quote @ ''10'' @ quote @ '' />''"
proof -
  have lit: "open_tag ''  '' ''b'' @ count_attr 7 @ optional_attr @ '' />''
     = newline @ ''  <b _count='' @ quote @ ''7'' @ quote
       @ '' _optional='' @ quote @ ''true'' @ quote @ '' />''"
    "open_tag ''  '' ''d'' @ count_attr 10 @ '' />''
     = newline @ ''  <d _count='' @ quote @ ''10'' @ quote @ '' />''"
    by (simp_all add: open_tag_def count_attr_def optional_attr_def fmt_d_def digits.simps)
  have rep: "strings_Repeat ''  '' 0 = Some []" "strings_Repeat ''  '' (0 + 1) = Some ''  ''"
    by (simp_all add: strings_Repeat_def)
  have leaf: "Elements (\<lambda>_. []) [(''d'', Element 10 () [])] (0 + 1) 10
                = Some (open_tag ''  '' ''d'' @ count_attr 10 @ '' />'')"
    using rep by simp
  from optional_iff_count_below_parent
    [where l = "0 + 1" and pa = "\<lambda>_. []" and pre = "[]" and c = 10 and k = "''b''"
       and elem = "Element 7 () []" and post = "[(''d'', Element 10 () [])]"]
    rep leaf
  have inner: "Elements (\<lambda>_. []) ([] @ (''b'', Element 7 () []) # [(''d'', Element 10 () [])]) (0 + 1) 10
     = Some (open_tag ''  '' ''b'' @ count_attr 7 @ optional_attr @ '' />''
             @ open_tag ''  '' ''d'' @ count_attr 10 @ '' />'')"
    by auto
  from optional_iff_count_below_parent
    [where l = 0 and pa = "\<lambda>_. []" and pre = "[]" and c = 10 and k = "''a''"
       and elem = "Element 10 () [(''b'', Element 7 () []), (''d'', Element 10 () [])]"
       and post = "[]"]
    rep inner
  have outer: "Elements (\<lambda>_. [])
      ([] @ (''a'', Element 10 () [(''b'', Element 7 () []), (''d'', Element 10 () [])]) # []) 0 10
     = Some (open_tag [] ''a'' @ count_attr 10 @ ''>''
             @ open_tag ''  '' ''b'' @ count_attr 7 @ optional_attr @ '' />''
             @ open_tag ''  '' ''d'' @ count_attr 10 @ '' />''
             @ close_tag [] ''a'')"
    by auto
  from inner outer lit show ?thesis by simp
qed

text \<open>
  C9. An element whose children map is empty is closed right after its attributes by the
  leaf marker \<^verbatim>\<open> />\<close>: the printer writes no \<^verbatim>\<open>>\<close>, no child block and no closing tag for it.
  Only an element whose children map is not empty gets \<^verbatim>\<open>>\<close>, the block of its children
  one level deeper, and its closing tag.
\<close>

theorem leaf_is_self_closing:
  assumes "0 \<le> l"
  shows "\<exists>indent inner.
           strings_Repeat ''  '' l = Some indent \<and>
           Elements pa (El elem) (l + 1) (Cn elem) = Some inner \<and>
           (El elem = [] \<longrightarrow>
              Elements_body pa k elem l c =
                Some (open_tag indent k @ count_attr (Cn elem)
                      @ (if Cn elem < c then optional_attr else []) @ pa (At elem) @ '' />'')) \<and>
           (El elem \<noteq> [] \<longrightarrow>
              Elements_body pa k elem l c =
                Some (open_tag indent k @ count_attr (Cn elem)
                      @ (if Cn elem < c then optional_attr else []) @ pa (At elem)
                      @ ''>'' @ inner @ close_tag indent k))"
  using Elements_body_eq [OF assms, of pa elem k c] by auto

theorem leaf_is_self_closing_witness:
  "(0::int) \<le> 0 \<and>
   El (Element 3 ''A'' []) = [] \<and>
   Elements_body (\<lambda>a. '' attrs='' @ a) ''x'' (Element 3 ''A'' []) 0 3
     = Some (open_tag [] ''x'' @ count_attr 3 @ '' attrs=A'' @ '' />'') \<and>
   El (Element 3 ''B'' [(''x'', Element 3 ''A'' [])]) \<noteq> [] \<and>
   Elements_body (\<lambda>a. '' attrs='' @ a) ''y'' (Element 3 ''B'' [(''x'', Element 3 ''A'' [])]) 0 3
     = Some (open_tag [] ''y'' @ count_attr 3 @ '' attrs=B'' @ ''>''
             @ open_tag ''  '' ''x'' @ count_attr 3 @ '' attrs=A'' @ '' />''
             @ close_tag [] ''y'')"
proof -
  have rep: "strings_Repeat ''  '' 0 = Some []" "strings_Repeat ''  '' (0 + 1) = Some ''  ''"
    by (simp_all add: strings_Repeat_def)
  have e: "Elements (\<lambda>a. '' attrs='' @ a) [] (0 + 1) 3 = Some []" by simp
  from leaf_is_self_closing
    [where l = 0 and pa = "\<lambda>a. '' attrs='' @ a" and elem = "Element 3 ''A'' []"
       and k = "''x''" and c = 3] rep
  have 1: "Elements_body (\<lambda>a. '' attrs='' @ a) ''x'' (Element 3 ''A'' []) 0 3
     = Some (open_tag [] ''x'' @ count_attr 3 @ '' attrs=A'' @ '' />'')"
    by auto
  have i: "Elements (\<lambda>a. '' attrs='' @ a) [(''x'', Element 3 ''A'' [])] (0 + 1) 3
     = Some (open_tag ''  '' ''x'' @ count_attr 3 @ '' attrs=A'' @ '' />'')"
    using rep by simp
  from leaf_is_self_closing
    [where l = 0 and pa = "\<lambda>a. '' attrs='' @ a"
       and elem = "Element 3 ''B'' [(''x'', Element 3 ''A'' [])]"
       and k = "''y''" and c = 3] rep i
  have 2: "Elements_body (\<lambda>a. '' attrs='' @ a) ''y'' (Element 3 ''B'' [(''x'', Element 3 ''A'' [])]) 0 3
     = Some (open_tag [] ''y'' @ count_attr 3 @ '' attrs=B'' @ ''>''
             @ open_tag ''  '' ''x'' @ count_attr 3 @ '' attrs=A'' @ '' />''
             @ close_tag [] ''y'')"
    by auto
  from 1 2 show ?thesis by simp
qed

subsection \<open>The order of the iteration\<close>









end
